theory Spec2Isabelle
  imports Main "HOL-Library.Word"
begin

section \<open>TimeLib: a software real-time clock (src/TimeLib.c)\<close>

text \<open>
  The development embeds the functions of \<^verbatim>\<open>src/TimeLib.c\<close>. The header
  \<^verbatim>\<open>TimeLib.h\<close> (the types \<^verbatim>\<open>time_t\<close>, \<^verbatim>\<open>struct tm_t\<close>,
  \<^verbatim>\<open>time_callback_t\<close>, the status enumeration and the macros
  \<^verbatim>\<open>TIME_SECS_PER_*\<close>, \<^verbatim>\<open>TICK_SECOND\<close>) and the platform's
  \<^verbatim>\<open>tick_get\<close> are not part of the sources; what the code needs of them is either a
  parameter of the model or a definition marked as modelled from the specification.
\<close>

subsection \<open>Calendar arithmetic\<close>

text \<open>
  The calendar routines compute in \<^verbatim>\<open>uint32_t\<close>. They are modelled on natural
  numbers with the wrap-around written out: \<open>u32\<close> is the store into a 32-bit unsigned
  variable.
\<close>

definition u32 :: "nat \<Rightarrow> nat" where
  "u32 n = n mod 2 ^ 32"

text \<open>
  Modelled from the spec: the macros \<^verbatim>\<open>TIME_SECS_PER_DAY\<close>,
  \<^verbatim>\<open>TIME_SECS_PER_HOUR\<close> and \<^verbatim>\<open>TIME_SECS_PER_MINUTE\<close> of TimeLib.h
  (86400, 3600 and 60 in the algorithm of section 4.1), taken to be unsigned constants, so
  that the products \<open>time_make\<close> forms with them are unsigned and wrap.
\<close>

definition TIME_SECS_PER_DAY :: nat where
  "TIME_SECS_PER_DAY = 86400"

definition TIME_SECS_PER_HOUR :: nat where
  "TIME_SECS_PER_HOUR = 3600"

definition TIME_SECS_PER_MINUTE :: nat where
  "TIME_SECS_PER_MINUTE = 60"

text \<open>
  Modelled from the spec: \<^verbatim>\<open>struct tm_t\<close> of TimeLib.h, the broken-down calendar
  value of section 3. Its fields are numbers; their C widths are not known, and every field
  \<open>time_break\<close> writes stays below 256 (lemma \<open>time_break_fields\<close>).
\<close>

record tm_t =
  tm_sec :: nat
  tm_min :: nat
  tm_hour :: nat
  tm_wday :: nat
  tm_mday :: nat
  tm_mon :: nat
  tm_year :: nat

text \<open>\<^verbatim>\<open>const unsigned char month_length[]\<close> (line 23).\<close>

definition month_length :: "nat list" where
  "month_length = [31, 28, 31, 30, 31, 30, 31, 31, 30, 31, 30, 31]"

text \<open>\<^verbatim>\<open>time_is_leap\<close> (lines 56-60).\<close>

definition time_is_leap :: "nat \<Rightarrow> bool" where
  "time_is_leap year \<longleftrightarrow> (year mod 4 = 0 \<and> year mod 100 \<noteq> 0) \<or> year mod 400 = 0"

text \<open>
  \<^verbatim>\<open>time_make\<close>, first loop (lines 114-117): one day more for every leap year
  \<open>i + 1970\<close> with \<open>i < tm_year\<close>.
\<close>

function make_leap_loop :: "nat \<Rightarrow> nat \<Rightarrow> nat \<Rightarrow> nat" where
  "make_leap_loop i year tstamp =
     (if i < year
      then make_leap_loop (i + 1) year
             (if time_is_leap (i + 1970) then u32 (tstamp + TIME_SECS_PER_DAY) else tstamp)
      else tstamp)"
  by pat_completeness auto
termination
  by (relation "measure (\<lambda>(i, year, tstamp). year - i)") auto

text \<open>
  \<^verbatim>\<open>time_make\<close>, second loop (lines 119-124), over the months \<open>1 \<le> i < tm_mon\<close>.
  The table has 12 entries: reading \<^verbatim>\<open>month_length[i - 1]\<close> with \<open>i > 12\<close> is an
  out-of-bounds read in C, which the model reports as \<open>None\<close>.
\<close>

function make_month_loop :: "nat \<Rightarrow> nat \<Rightarrow> nat \<Rightarrow> nat \<Rightarrow> nat option" where
  "make_month_loop year i mon tstamp =
     (if i < mon
      then (if i = 2 \<and> time_is_leap (year + 1970)
            then make_month_loop year (i + 1) mon (u32 (tstamp + TIME_SECS_PER_DAY * 29))
            else if i - 1 < length month_length
            then make_month_loop year (i + 1) mon
                   (u32 (tstamp + TIME_SECS_PER_DAY * (month_length ! (i - 1))))
            else None)
      else Some tstamp)"
  by pat_completeness auto
termination
  by (relation "measure (\<lambda>(year, i, mon, tstamp). mon - i)") auto

text \<open>
  \<^verbatim>\<open>time_make\<close> (lines 105-133). \<^verbatim>\<open>tm_mday - 1\<close> is computed in \<^verbatim>\<open>int\<close> and then
  cast to \<^verbatim>\<open>uint32_t\<close>, so a day of month 0 gives \<open>2 ^ 32 - 1\<close>.
\<close>

definition time_make :: "tm_t \<Rightarrow> nat option" where
  "time_make timeinfo =
     (let tstamp = u32 (tm_year timeinfo * (TIME_SECS_PER_DAY * 365));
          tstamp = make_leap_loop 0 (tm_year timeinfo) tstamp
      in case make_month_loop (tm_year timeinfo) 1 (tm_mon timeinfo) tstamp of
           None \<Rightarrow> None
         | Some tstamp \<Rightarrow>
             (let tstamp = u32 (tstamp
                    + u32 (nat ((int (tm_mday timeinfo) - 1) mod 2 ^ 32)) * u32 TIME_SECS_PER_DAY);
                  tstamp = u32 (tstamp + u32 (tm_hour timeinfo) * u32 TIME_SECS_PER_HOUR);
                  tstamp = u32 (tstamp + u32 (tm_min timeinfo) * u32 TIME_SECS_PER_MINUTE);
                  tstamp = u32 (tstamp + u32 (tm_sec timeinfo))
              in Some tstamp))"

text \<open>
  \<^verbatim>\<open>time_break\<close>, the year loop (lines 154-157). \<open>year\<close> is a \<^verbatim>\<open>uint8_t\<close>, so
  \<^verbatim>\<open>year++\<close> wraps at 256. \<open>days\<close> is an \<^verbatim>\<open>unsigned long\<close>, compared after a cast to
  \<^verbatim>\<open>unsigned\<close>: it never exceeds \<open>xTime + 366\<close>, which is below \<open>2 ^ 16\<close> for every
  32-bit timestamp (lemma \<open>break_year_loop_range\<close>), so neither type wraps and \<open>days\<close> is
  a natural number here. The loop returns \<open>year\<close> and \<open>days\<close>.
\<close>

function break_year_loop :: "nat \<Rightarrow> nat \<Rightarrow> nat \<Rightarrow> nat \<times> nat" where
  "break_year_loop year days xTime =
     (let days = days + (if time_is_leap (1970 + year) then 366 else 365)
      in if days \<le> xTime then break_year_loop ((year + 1) mod 256) days xTime
         else (year, days))"
  by pat_completeness auto
termination
  by (relation "measure (\<lambda>(year, days, xTime). xTime - days)") (auto simp: Let_def)

text \<open>
  \<^verbatim>\<open>time_break\<close>, the month loop (lines 167-184): returns \<open>month\<close> and what is left of
  \<open>xTime\<close>. The \<^verbatim>\<open>break\<close> and the end of the \<^verbatim>\<open>for\<close> loop both leave through the
  last two branches.
\<close>

function break_month_loop :: "nat \<Rightarrow> nat \<Rightarrow> nat \<Rightarrow> nat \<times> nat" where
  "break_month_loop year month xTime =
     (if month < 12
      then (let monthLength =
                  (if month = 1 then (if time_is_leap (1970 + year) then 29 else 28)
                   else month_length ! month)
            in if xTime \<ge> monthLength
               then break_month_loop year (month + 1) (xTime - monthLength)
               else (month, xTime))
      else (month, xTime))"
  by pat_completeness auto
termination
  by (relation "measure (\<lambda>(year, month, xTime). 12 - month)") auto

text \<open>
  \<^verbatim>\<open>time_break\<close> (lines 135-187); the structure written through the pointer is the
  result. Line 142 truncates the input to 32 bits. The two subtractions of lines 161 and
  162 cannot wrap (lemma \<open>break_year_loop_range\<close>).
\<close>

definition time_break :: "nat \<Rightarrow> tm_t" where
  "time_break timeinput =
     (let xTime = u32 timeinput;
          sec = xTime mod 60;
          xTime = xTime div 60;
          mn = xTime mod 60;
          xTime = xTime div 60;
          hour = xTime mod 24;
          xTime = xTime div 24;
          wday = ((xTime + 4) mod 7) + 1;
          (year, days) = break_year_loop 0 0 xTime;
          days = days - (if time_is_leap (1970 + year) then 366 else 365);
          xTime = xTime - days;
          (month, xTime) = break_month_loop year 0 xTime
      in \<lparr> tm_sec = sec, tm_min = mn, tm_hour = hour, tm_wday = wday,
           tm_mday = xTime + 1, tm_mon = month + 1, tm_year = year \<rparr>)"


subsection \<open>The clock: module state\<close>

text \<open>
  Modelled from the spec: \<^verbatim>\<open>enum enTimeStatus\<close> of TimeLib.h, in the order of
  section 6 (\<open>NOT_SET = 0\<close>, \<open>NEEDS_SYNC\<close>, \<open>OK\<close>).
\<close>

datatype enTimeStatus = E_TIME_NOT_SET | E_TIME_NEEDS_SYNC | E_TIME_OK

text \<open>
  Modelled from the spec: the type \<^verbatim>\<open>time_t\<close> of TimeLib.h, an unsigned integer of at
  least 32 bits (section 3). Its width is the type parameter \<open>'t\<close>; its arithmetic wraps
  as C's unsigned arithmetic does, and its comparison is unsigned.
\<close>

type_synonym 't time_t = "'t word"

text \<open>
  Modelled from the spec: the result type of the platform's \<^verbatim>\<open>tick_get()\<close>, an unsigned
  integer that may wrap around (section 6); \<open>last_update\<close> is an \<^verbatim>\<open>unsigned long\<close>.
  Its width is the type parameter \<open>'k\<close>.
\<close>

type_synonym 'k tick_t = "'k word"

text \<open>
  Modelled from the spec: the type \<^verbatim>\<open>time_callback_t\<close> of TimeLib.h, a pointer to a
  function without arguments that returns a \<^verbatim>\<open>time_t\<close> (section 6). A callback is
  represented by its address, \<open>0\<close> being the null pointer; what the callback returns
  when it is invoked is an input of the functions that may invoke it.
\<close>

type_synonym time_callback_t = nat

text \<open>
  The file-scope variables of lines 26-47. The record is used at the types
  \<open>'t time_t\<close> and \<open>'k tick_t\<close>.
\<close>

record ('t, 'k) clock =
  sys_time :: 't
  sync_interval :: 't
  sync_next :: 't
  last_update :: 'k
  enTimeCurrentStatus :: enTimeStatus
  time_provider_callback :: time_callback_t

text \<open>The state of the module, at the widths \<open>'t\<close> and \<open>'k\<close>.\<close>

type_synonym ('t, 'k) timelib = "('t time_t, 'k tick_t) clock"

text \<open>The initialisers of lines 26-47.\<close>

definition time_init :: "('t::len, 'k::len) timelib" where
  "time_init =
     \<lparr> sys_time = 0, sync_interval = 86400, sync_next = 0, last_update = 0,
       enTimeCurrentStatus = E_TIME_NOT_SET, time_provider_callback = 0 \<rparr>"

subsection \<open>The clock: operations\<close>

text \<open>
  Every function below that reads the platform's \<^verbatim>\<open>tick_get()\<close> takes the value read
  as its argument \<open>tick\<close>: one call of the module is one instant of the tick counter.
  \<open>cb_now\<close> is what the registered callback returns if the call invokes it, and
  \<open>TICK_SECOND\<close> is the platform's constant of that name.

  \<^verbatim>\<open>time_set\<close> (lines 66-72).
\<close>

definition time_set ::
  "'k tick_t \<Rightarrow> 't time_t \<Rightarrow> ('t::len, 'k::len) timelib \<Rightarrow> ('t, 'k) timelib" where
  "time_set tick now s =
     s\<lparr> sys_time := now,
        sync_next := now + sync_interval s,
        enTimeCurrentStatus := E_TIME_OK,
        last_update := tick \<rparr>"

text \<open>\<^verbatim>\<open>time_get\<close>, the sync check (lines 79-92).\<close>

definition time_get_sync ::
  "'k tick_t \<Rightarrow> 't time_t \<Rightarrow> ('t::len, 'k::len) timelib \<Rightarrow> ('t, 'k) timelib" where
  "time_get_sync tick cb_now s =
     (if sync_next s \<le> sys_time s
      then (if time_provider_callback s \<noteq> 0
            then (let now = cb_now
                  in if now \<noteq> 0 then time_set tick now s
                     else s\<lparr> sync_next := sys_time s + sync_interval s,
                             enTimeCurrentStatus :=
                               (if enTimeCurrentStatus s = E_TIME_NOT_SET then E_TIME_NOT_SET
                                else E_TIME_NEEDS_SYNC) \<rparr>)
            else s)
      else s)"

text \<open>
  \<^verbatim>\<open>time_get\<close>, the tick loop (lines 96-100). The subtraction is that of the
  unsigned tick type. With \<open>TICK_SECOND = 0\<close> the loop of the source never ends, and the
  model has no result (\<open>None\<close>).
\<close>

partial_function (option) time_get_ticks ::
  "'k tick_t \<Rightarrow> 'k tick_t \<Rightarrow> ('t::len, 'k::len) timelib \<Rightarrow> ('t, 'k) timelib option" where
  "time_get_ticks TICK_SECOND tick s =
     (if tick - last_update s \<ge> TICK_SECOND
      then time_get_ticks TICK_SECOND tick
             (s\<lparr> sys_time := sys_time s + 1, last_update := last_update s + TICK_SECOND \<rparr>)
      else Some s)"

text \<open>\<^verbatim>\<open>time_get\<close> (lines 74-103): the new state and the value returned.\<close>

definition time_get ::
  "'k tick_t \<Rightarrow> 'k tick_t \<Rightarrow> 't time_t \<Rightarrow> ('t::len, 'k::len) timelib
     \<Rightarrow> (('t, 'k) timelib \<times> 't time_t) option" where
  "time_get TICK_SECOND tick cb_now s =
     (case time_get_ticks TICK_SECOND tick (time_get_sync tick cb_now s) of
        None \<Rightarrow> None
      | Some s' \<Rightarrow> Some (s', sys_time s'))"

text \<open>\<^verbatim>\<open>time_set_provider\<close> (lines 189-202); the value of the inner \<^verbatim>\<open>time_get\<close> is dropped.\<close>

definition time_set_provider ::
  "'k tick_t \<Rightarrow> 'k tick_t \<Rightarrow> 't time_t \<Rightarrow> time_callback_t \<Rightarrow> 't time_t \<Rightarrow> ('t::len, 'k::len) timelib
     \<Rightarrow> ('t, 'k) timelib option" where
  "time_set_provider TICK_SECOND tick cb_now callback timespan s =
     (if callback = 0 then Some s
      else map_option fst
             (time_get TICK_SECOND tick cb_now
                (s\<lparr> time_provider_callback := callback,
                    sync_interval := (if timespan = 0 then of_nat TIME_SECS_PER_DAY else timespan),
                    sync_next := sys_time s \<rparr>)))"

subsection \<open>The clock: runs of calls\<close>

text \<open>
  A call of the public interface, with the inputs the environment supplies to it: the tick
  value, and what the provider returns at that moment.
\<close>

datatype ('t, 'k) call =
    Call_set 'k 't
  | Call_get 'k 't
  | Call_set_provider 'k 't time_callback_t 't

type_synonym ('t, 'k) timelib_call = "('t time_t, 'k tick_t) call"

definition step ::
  "'k tick_t \<Rightarrow> ('t::len, 'k::len) timelib_call \<Rightarrow> ('t, 'k) timelib \<Rightarrow> ('t, 'k) timelib option" where
  "step TICK_SECOND c s =
     (case c of
        Call_set tick now \<Rightarrow> Some (time_set tick now s)
      | Call_get tick cb_now \<Rightarrow> map_option fst (time_get TICK_SECOND tick cb_now s)
      | Call_set_provider tick cb_now callback timespan \<Rightarrow>
          time_set_provider TICK_SECOND tick cb_now callback timespan s)"

text \<open>
  What happened to the clock during a call, as far as the status law is concerned: a
  \<^verbatim>\<open>time_set\<close> with its argument (line 66, called by the application or from line 86),
  or the provider returning 0 while a sync was due (the branch of lines 87-90).
\<close>

datatype 't event = Ev_set 't | Ev_provider_zero

definition sync_events :: "'t time_t \<Rightarrow> ('t::len, 'k::len) timelib \<Rightarrow> 't time_t event list" where
  "sync_events cb_now s =
     (if sync_next s \<le> sys_time s \<and> time_provider_callback s \<noteq> 0
      then (if cb_now \<noteq> 0 then [Ev_set cb_now] else [Ev_provider_zero])
      else [])"

definition call_events ::
  "('t::len, 'k::len) timelib_call \<Rightarrow> ('t, 'k) timelib \<Rightarrow> 't time_t event list" where
  "call_events c s =
     (case c of
        Call_set tick now \<Rightarrow> [Ev_set now]
      | Call_get tick cb_now \<Rightarrow> sync_events cb_now s
      | Call_set_provider tick cb_now callback timespan \<Rightarrow>
          (if callback = 0 then []
           else sync_events cb_now
                  (s\<lparr> time_provider_callback := callback,
                      sync_interval := (if timespan = 0 then of_nat TIME_SECS_PER_DAY else timespan),
                      sync_next := sys_time s \<rparr>)))"

text \<open>A run of calls from a state, collecting the events in the order they happen.\<close>

fun run ::
  "'k tick_t \<Rightarrow> ('t::len, 'k::len) timelib_call list
     \<Rightarrow> ('t, 'k) timelib \<times> 't time_t event list
     \<Rightarrow> (('t, 'k) timelib \<times> 't time_t event list) option" where
  "run TICK_SECOND [] (s, log) = Some (s, log)"
| "run TICK_SECOND (c # cs) (s, log) =
     (case step TICK_SECOND c s of
        None \<Rightarrow> None
      | Some s' \<Rightarrow> run TICK_SECOND cs (s', log @ call_events c s))"

fun is_set :: "'t event \<Rightarrow> bool" where
  "is_set (Ev_set now) = True"
| "is_set Ev_provider_zero = False"

fun set_nonzero :: "'t::len time_t event \<Rightarrow> bool" where
  "set_nonzero (Ev_set now) = (now \<noteq> 0)"
| "set_nonzero Ev_provider_zero = False"

text \<open>
  The status law as the specification words it: the most recent set had a nonzero argument
  and the provider has not returned 0 (while due) since.
\<close>

definition status_law_spec :: "'t::len time_t event list \<Rightarrow> bool" where
  "status_law_spec log =
     (case dropWhile (\<lambda>e. \<not> is_set e) (rev log) of
        [] \<Rightarrow> False
      | e # _ \<Rightarrow> set_nonzero e \<and> Ev_provider_zero \<notin> set (takeWhile (\<lambda>e. \<not> is_set e) (rev log)))"

text \<open>The law the code obeys: the same, whatever the argument of the most recent set.\<close>

definition status_law :: "'t event list \<Rightarrow> bool" where
  "status_law log =
     (case dropWhile (\<lambda>e. \<not> is_set e) (rev log) of
        [] \<Rightarrow> False
      | e # _ \<Rightarrow> Ev_provider_zero \<notin> set (takeWhile (\<lambda>e. \<not> is_set e) (rev log)))"

text \<open>A sequence of \<^verbatim>\<open>time_get\<close> calls and nothing else: the values returned.\<close>

fun time_get_seq ::
  "'k tick_t \<Rightarrow> ('k tick_t \<times> 't time_t) list \<Rightarrow> ('t::len, 'k::len) timelib \<Rightarrow> 't time_t list option" where
  "time_get_seq TICK_SECOND [] s = Some []"
| "time_get_seq TICK_SECOND ((tick, cb_now) # envs) s =
     (case time_get TICK_SECOND tick cb_now s of
        None \<Rightarrow> None
      | Some (s', r) \<Rightarrow> map_option ((#) r) (time_get_seq TICK_SECOND envs s'))"

text \<open>
  The runs of \<^verbatim>\<open>time_get\<close> calls on which the counter can only go forward: at each
  call, a provider that is invoked and returns a time returns one that is not before the
  counter's, the seconds the tick loop adds do not overflow \<^verbatim>\<open>time_t\<close>, and the
  call returns.
\<close>

fun forward_only ::
  "'k tick_t \<Rightarrow> ('k tick_t \<times> 't time_t) list \<Rightarrow> ('t::len, 'k::len) timelib \<Rightarrow> bool" where
  "forward_only TICK_SECOND [] s = True"
| "forward_only TICK_SECOND ((tick, cb_now) # envs) s =
     ((sync_next s \<le> sys_time s \<and> time_provider_callback s \<noteq> 0 \<and> cb_now \<noteq> 0
         \<longrightarrow> sys_time s \<le> cb_now)
      \<and> (let s1 = time_get_sync tick cb_now s
         in unat (sys_time s1) + unat (tick - last_update s1) div unat TICK_SECOND
              < 2 ^ LENGTH('t))
      \<and> (case time_get TICK_SECOND tick cb_now s of
           None \<Rightarrow> False
         | Some (s', r) \<Rightarrow> forward_only TICK_SECOND envs s'))"

section \<open>Notions used in the proofs\<close>

text \<open>
  The length of the year \<open>1970 + y\<close> and of its months (months counted from 0, as
  \<open>time_break\<close> counts them), and the days before a year and before a month.
\<close>

definition year_days :: "nat \<Rightarrow> nat" where
  "year_days y = (if time_is_leap (1970 + y) then 366 else 365)"

definition days_before_year :: "nat \<Rightarrow> nat" where
  "days_before_year y = sum_list (map year_days [0..<y])"

definition month_days :: "nat \<Rightarrow> nat \<Rightarrow> nat" where
  "month_days year m =
     (if m = 1 then (if time_is_leap (1970 + year) then 29 else 28) else month_length ! m)"

definition days_before_month :: "nat \<Rightarrow> nat \<Rightarrow> nat" where
  "days_before_month year m = sum_list (map (month_days year) [0..<m])"

definition leap_years :: "nat \<Rightarrow> nat \<Rightarrow> nat" where
  "leap_years i year = length (filter (\<lambda>k. time_is_leap (k + 1970)) [i..<year])"

definition month_sum :: "nat \<Rightarrow> nat \<Rightarrow> nat \<Rightarrow> nat" where
  "month_sum year a b = sum_list (map (month_days year) [a..<b])"

text \<open>
  The sum \<open>time_make\<close> accumulates, before its truncation to 32 bits.
\<close>

definition make_sum :: "tm_t \<Rightarrow> nat" where
  "make_sum tm =
     tm_year tm * (TIME_SECS_PER_DAY * 365)
     + TIME_SECS_PER_DAY * leap_years 0 (tm_year tm)
     + TIME_SECS_PER_DAY * month_sum (tm_year tm) 0 (tm_mon tm - 1)
     + nat ((int (tm_mday tm) - 1) mod 2 ^ 32) * TIME_SECS_PER_DAY
     + tm_hour tm * TIME_SECS_PER_HOUR
     + tm_min tm * TIME_SECS_PER_MINUTE
     + tm_sec tm"

text \<open>
  The algorithm of \<open>make\<close> as section 4.1 of the specification words it, on unbounded
  integers: the seconds of the whole years, a day for each leap year in
  \<open>[1970, 1970 + year)\<close>, the months \<open>[1, month)\<close>, then the day, hour, minute and
  second.
\<close>

definition make_spec :: "tm_t \<Rightarrow> int" where
  "make_spec tm =
     int (tm_year tm) * 365 * 86400
     + (\<Sum>y\<leftarrow>[1970..<1970 + tm_year tm]. if time_is_leap y then 86400 else 0)
     + (\<Sum>m\<leftarrow>[1..<tm_mon tm].
          if m = 2 \<and> time_is_leap (1970 + tm_year tm) then 29 * 86400
          else int (month_length ! (m - 1)) * 86400)
     + (int (tm_mday tm) - 1) * 86400
     + int (tm_hour tm) * 3600 + int (tm_min tm) * 60 + int (tm_sec tm)"

text \<open>The state the tick loop leaves after \<open>n\<close> iterations.\<close>

definition ticks_result :: "'k tick_t \<Rightarrow> nat \<Rightarrow> ('t::len, 'k::len) timelib \<Rightarrow> ('t, 'k) timelib" where
  "ticks_result TICK_SECOND n s =
     s\<lparr> sys_time := sys_time s + of_nat n, last_update := last_update s + of_nat n * TICK_SECOND \<rparr>"

section \<open>Calendar arithmetic: proofs\<close>

text \<open>The loops are unfolded by hand, one iteration at a time.\<close>

declare make_leap_loop.simps [simp del] make_month_loop.simps [simp del]
  break_year_loop.simps [simp del] break_month_loop.simps [simp del]

lemma u32_add_left: "u32 (u32 a + b) = u32 (a + b)"
  by (simp add: u32_def mod_add_left_eq)

lemma u32_add_right: "u32 (a + u32 b) = u32 (a + b)"
  by (simp add: u32_def mod_add_right_eq)

lemma u32_idem: "u32 (u32 a) = u32 a"
  by (simp add: u32_def)

lemma u32_small: "a < 2 ^ 32 \<Longrightarrow> u32 a = a"
  by (simp add: u32_def)

lemma days_before_year_Suc: "days_before_year (Suc y) = days_before_year y + year_days y"
  by (simp add: days_before_year_def)

lemma days_before_year_lower: "365 * y \<le> days_before_year y"
  by (induction y) (auto simp: days_before_year_Suc year_days_def days_before_year_def)

lemma break_year_loop_spec:
  "days = days_before_year year \<Longrightarrow> days \<le> xTime \<Longrightarrow> xTime < 49711 \<Longrightarrow>
   break_year_loop year days xTime = (y, d) \<Longrightarrow>
   d = days_before_year (Suc y) \<and> days_before_year y \<le> xTime \<and> xTime < d \<and> y < 137"
proof (induction year days xTime rule: break_year_loop.induct)
  case (1 year days xTime)
  have yb: "year < 137"
    using days_before_year_lower [of year] "1.prems" by linarith
  then have wrap: "(year + 1) mod 256 = Suc year" by simp
  define d' where "d' = days + (if time_is_leap (1970 + year) then 366 else 365)"
  have d': "d' = days_before_year (Suc year)"
    using "1.prems"(1) by (simp add: d'_def days_before_year_Suc year_days_def)
  show ?case
  proof (cases "d' \<le> xTime")
    case True
    have "break_year_loop year days xTime = break_year_loop (Suc year) d' xTime"
      using True wrap unfolding d'_def by (subst break_year_loop.simps) (simp add: Let_def)
    then have run: "break_year_loop (Suc year) d' xTime = (y, d)"
      using "1.prems"(4) by simp
    have "d = days_before_year (Suc y) \<and> days_before_year y \<le> xTime \<and> xTime < d \<and> y < 137"
      using "1.IH" [of d'] True d' "1.prems"(3) run wrap unfolding d'_def by simp
    then show ?thesis .
  next
    case False
    have "break_year_loop year days xTime = (year, d')"
      using False unfolding d'_def by (subst break_year_loop.simps) (simp add: Let_def)
    then have "y = year" "d = d'" using "1.prems"(4) by simp_all
    with False d' "1.prems"(1,2) yb show ?thesis by simp
  qed
qed

lemma days_before_month_Suc:
  "days_before_month year (Suc m) = days_before_month year m + month_days year m"
  by (simp add: days_before_month_def)

lemma break_month_loop_spec:
  "month \<le> 12 \<Longrightarrow> break_month_loop year month x = (m, r) \<Longrightarrow>
   m \<le> 12 \<and> days_before_month year m + r = days_before_month year month + x
   \<and> (m < 12 \<longrightarrow> r < month_days year m)"
proof (induction year month x rule: break_month_loop.induct)
  case (1 year month xTime)
  show ?case
  proof (cases "month < 12")
    case False
    have "break_month_loop year month xTime = (month, xTime)"
      using False by (subst break_month_loop.simps) simp
    then have "m = month" "r = xTime" using "1.prems"(2) by simp_all
    with False "1.prems"(1) show ?thesis by simp
  next
    case lt: True
    define len where "len = (if month = 1 then (if time_is_leap (1970 + year) then 29 else 28)
                else month_length ! month)"
    have len: "len = month_days year month" by (simp add: len_def month_days_def)
    show ?thesis
    proof (cases "len \<le> xTime")
      case True
      have "break_month_loop year month xTime = break_month_loop year (month + 1) (xTime - len)"
        using lt True unfolding len_def by (subst break_month_loop.simps) (simp add: Let_def)
      then have run: "break_month_loop year (month + 1) (xTime - len) = (m, r)"
        using "1.prems"(2) by simp
      have "m \<le> 12 \<and> days_before_month year m + r
              = days_before_month year (month + 1) + (xTime - len)
            \<and> (m < 12 \<longrightarrow> r < month_days year m)"
        using "1.IH" [of len] lt True run unfolding len_def by simp
      with True len show ?thesis by (simp add: days_before_month_Suc)
    next
      case False
      have "break_month_loop year month xTime = (month, xTime)"
        using lt False unfolding len_def by (subst break_month_loop.simps) (simp add: Let_def)
      then have "m = month" "r = xTime" using "1.prems"(2) by simp_all
      with False len lt show ?thesis by simp
    qed
  qed
qed

lemma days_before_month_12: "days_before_month year 12 = year_days year"
  by (simp add: days_before_month_def month_days_def month_length_def year_days_def
      eval_nat_numeral upt_rec)

lemma leap_years_step:
  "i < year \<Longrightarrow> leap_years i year = (if time_is_leap (i + 1970) then 1 else 0) + leap_years (i + 1) year"
  by (simp add: leap_years_def upt_conv_Cons)

lemma leap_years_empty: "\<not> i < year \<Longrightarrow> leap_years i year = 0"
  by (simp add: leap_years_def)

lemma make_leap_loop_spec:
  "u32 (make_leap_loop i year t) = u32 (t + TIME_SECS_PER_DAY * leap_years i year)"
proof (induction i year t rule: make_leap_loop.induct)
  case (1 i year tstamp)
  show ?case
  proof (cases "i < year")
    case False
    then show ?thesis
      by (subst make_leap_loop.simps) (simp add: leap_years_empty)
  next
    case True
    define t' where "t' = (if time_is_leap (i + 1970) then u32 (tstamp + TIME_SECS_PER_DAY) else tstamp)"
    have "make_leap_loop i year tstamp = make_leap_loop (i + 1) year t'"
      using True unfolding t'_def by (subst make_leap_loop.simps) simp
    then have "u32 (make_leap_loop i year tstamp)
                 = u32 (t' + TIME_SECS_PER_DAY * leap_years (i + 1) year)"
      using "1.IH" [OF True] unfolding t'_def by simp
    also have "\<dots> = u32 (tstamp + TIME_SECS_PER_DAY * leap_years i year)"
    proof (cases "time_is_leap (i + 1970)")
      case False
      then show ?thesis by (simp add: t'_def leap_years_step [OF True])
    next
      case leap: True
      have "u32 (t' + TIME_SECS_PER_DAY * leap_years (i + 1) year)
              = u32 (tstamp + TIME_SECS_PER_DAY + TIME_SECS_PER_DAY * leap_years (i + 1) year)"
        using leap by (simp add: t'_def u32_add_left)
      then show ?thesis using leap by (simp add: leap_years_step [OF True] add.assoc)
    qed
    finally show ?thesis .
  qed
qed

lemma days_before_year_leap: "days_before_year y = 365 * y + leap_years 0 y"
  by (induction y)
     (simp_all add: days_before_year_def leap_years_def year_days_def add.commute)

lemma month_sum_step: "a < b \<Longrightarrow> month_sum year a b = month_days year a + month_sum year (a + 1) b"
  by (simp add: month_sum_def upt_conv_Cons)

lemma month_sum_empty: "\<not> a < b \<Longrightarrow> month_sum year a b = 0"
  by (simp add: month_sum_def)

lemma make_month_loop_spec:
  "1 \<le> i \<Longrightarrow> mon \<le> 13 \<Longrightarrow>
   \<exists>r. make_month_loop year i mon t = Some r
       \<and> u32 r = u32 (t + TIME_SECS_PER_DAY * month_sum year (i - 1) (mon - 1))"
proof (induction year i mon t rule: make_month_loop.induct)
  case (1 year i mon tstamp)
  show ?case
  proof (cases "i < mon")
    case False
    then have "\<not> i - 1 < mon - 1" by simp
    with False show ?thesis
      by (subst make_month_loop.simps) (simp add: month_sum_empty)
  next
    case True
    then have inb: "i - 1 < length month_length" and lt: "i - 1 < mon - 1"
      using "1.prems" by (simp_all add: month_length_def)
    have i1: "i - 1 + 1 = i" using "1.prems"(1) by simp
    define len where "len = month_days year (i - 1)"
    define t' where "t' = u32 (tstamp + TIME_SECS_PER_DAY * len)"
    have step: "make_month_loop year i mon tstamp = make_month_loop year (i + 1) mon t'"
    proof (cases "i = 2 \<and> time_is_leap (year + 1970)")
      case True
      then have "len = 29" by (simp add: len_def month_days_def add.commute)
      with True \<open>i < mon\<close> show ?thesis
        unfolding t'_def by (subst make_month_loop.simps) simp
    next
      case False
      then have "len = month_length ! (i - 1)"
        using "1.prems"(1) by (auto simp: len_def month_days_def add.commute month_length_def)
      with False \<open>i < mon\<close> inb show ?thesis
        unfolding t'_def by (subst make_month_loop.simps) auto
    qed
    have "\<exists>r. make_month_loop year (i + 1) mon t' = Some r
       \<and> u32 r = u32 (t' + TIME_SECS_PER_DAY * month_sum year (i + 1 - 1) (mon - 1))"
    proof (cases "i = 2 \<and> time_is_leap (year + 1970)")
      case True
      then have "len = 29" by (simp add: len_def month_days_def add.commute)
      then show ?thesis
        using "1.IH"(1) [OF \<open>i < mon\<close> True] "1.prems"(2) unfolding t'_def by simp
    next
      case False
      then have "len = month_length ! (i - 1)"
        using "1.prems"(1) by (auto simp: len_def month_days_def add.commute month_length_def)
      then show ?thesis
        using "1.IH"(2) [OF \<open>i < mon\<close> False inb] "1.prems"(2) unfolding t'_def by simp
    qed
    then obtain r where r: "make_month_loop year (i + 1) mon t' = Some r"
      and ur: "u32 r = u32 (t' + TIME_SECS_PER_DAY * month_sum year i (mon - 1))" by auto
    have "u32 (t' + TIME_SECS_PER_DAY * month_sum year i (mon - 1))
            = u32 (tstamp + TIME_SECS_PER_DAY * len + TIME_SECS_PER_DAY * month_sum year i (mon - 1))"
      by (simp add: t'_def u32_add_left)
    also have "\<dots> = u32 (tstamp + TIME_SECS_PER_DAY * month_sum year (i - 1) (mon - 1))"
      using month_sum_step [OF lt, of year] i1
      by (simp add: len_def add.assoc distrib_left)
    finally show ?thesis using step r ur by simp
  qed
qed

lemma u32_cong_add: "u32 a = u32 b \<Longrightarrow> u32 (a + c) = u32 (b + c)"
  unfolding u32_def by (rule mod_add_cong) simp_all

lemma u32_add_mult: "u32 (a + u32 b * u32 c) = u32 (a + b * c)"
  unfolding u32_def by (metis mod_add_right_eq mod_mult_eq)

lemma mday_cast: "r < 2 ^ 32 \<Longrightarrow> nat ((int (r + 1) - 1) mod 2 ^ 32) = r"
  by (simp add: nat_mod_distrib)

lemma time_make_sum:
  assumes "tm_mon tm \<le> 13"
  shows "time_make tm = Some (u32 (make_sum tm))"
proof -
  define t0 where "t0 = u32 (tm_year tm * (TIME_SECS_PER_DAY * 365))"
  define t1 where "t1 = make_leap_loop 0 (tm_year tm) t0"
  define A where "A = nat ((int (tm_mday tm) - 1) mod 2 ^ 32) * TIME_SECS_PER_DAY
     + tm_hour tm * TIME_SECS_PER_HOUR + tm_min tm * TIME_SECS_PER_MINUTE + tm_sec tm"
  obtain r where r: "make_month_loop (tm_year tm) 1 (tm_mon tm) t1 = Some r"
    and ur: "u32 r = u32 (t1 + TIME_SECS_PER_DAY * month_sum (tm_year tm) 0 (tm_mon tm - 1))"
    using make_month_loop_spec [of 1 "tm_mon tm" "tm_year tm" t1] assms by auto
  have "u32 t1 = u32 (t0 + TIME_SECS_PER_DAY * leap_years 0 (tm_year tm))"
    unfolding t1_def by (rule make_leap_loop_spec)
  also have "\<dots> = u32 (tm_year tm * (TIME_SECS_PER_DAY * 365)
                      + TIME_SECS_PER_DAY * leap_years 0 (tm_year tm))"
    by (simp add: t0_def u32_add_left)
  finally have ut1: "u32 t1 = u32 (tm_year tm * (TIME_SECS_PER_DAY * 365)
                      + TIME_SECS_PER_DAY * leap_years 0 (tm_year tm))" .
  have "u32 r = u32 (tm_year tm * (TIME_SECS_PER_DAY * 365)
                      + TIME_SECS_PER_DAY * leap_years 0 (tm_year tm)
                      + TIME_SECS_PER_DAY * month_sum (tm_year tm) 0 (tm_mon tm - 1))"
    using ur u32_cong_add [OF ut1] by simp
  then have urA: "u32 (r + A) = u32 (make_sum tm)"
    using u32_cong_add [of r _ A] by (simp add: make_sum_def A_def add.assoc)
  have "time_make tm = Some (u32 (u32 (u32 (u32 (r
          + u32 (nat ((int (tm_mday tm) - 1) mod 2 ^ 32)) * u32 TIME_SECS_PER_DAY)
          + u32 (tm_hour tm) * u32 TIME_SECS_PER_HOUR)
          + u32 (tm_min tm) * u32 TIME_SECS_PER_MINUTE)
          + u32 (tm_sec tm)))"
    using r by (simp add: time_make_def Let_def t1_def t0_def)
  also have "\<dots> = Some (u32 (r + A))"
    by (simp add: u32_add_mult u32_add_left u32_add_right A_def add.assoc)
  finally show ?thesis using urA by simp
qed

lemma split_seconds_aux:
  fixes ts a b q r1 r2 r3 :: nat
  assumes "ts = 60 * a + r1" and "a = 60 * b + r2" and "b = 24 * q + r3"
  shows "86400 * q + r3 * 3600 + r2 * 60 + r1 = ts"
  using assms by simp

lemma split_seconds:
  fixes ts :: nat
  shows "TIME_SECS_PER_DAY * (ts div 60 div 60 div 24)
      + ts div 60 div 60 mod 24 * TIME_SECS_PER_HOUR + ts div 60 mod 60 * TIME_SECS_PER_MINUTE
      + ts mod 60 = ts"
  unfolding TIME_SECS_PER_DAY_def TIME_SECS_PER_HOUR_def TIME_SECS_PER_MINUTE_def
  by (rule split_seconds_aux) simp_all

lemma days_of_32: "ts < 2 ^ 32 \<Longrightarrow> ts div 60 div 60 div 24 < (49711 :: nat)"
  by (simp add: div_mult2_eq [symmetric] less_mult_imp_div_less)

text \<open>
  The year loop on the days of a 32-bit timestamp: \<open>year\<close> stays below 137, so the
  \<^verbatim>\<open>uint8_t\<close> never wraps; \<open>days\<close> ends at most 366 above \<open>xTime\<close>, so it stays below
  \<open>2 ^ 16\<close>; and neither \<^verbatim>\<open>days -= ...\<close> (line 161) nor \<^verbatim>\<open>xTime -= days\<close> (line 162)
  goes below zero.
\<close>

lemma break_year_loop_range:
  assumes "xTime < 49711" and "break_year_loop 0 0 xTime = (year, days)"
  shows "year < 137 \<and> days \<le> xTime + 366 \<and> days < 2 ^ 16
         \<and> (if time_is_leap (1970 + year) then 366 else 365) \<le> days
         \<and> days - (if time_is_leap (1970 + year) then 366 else 365) \<le> xTime"
proof -
  from break_year_loop_spec [OF _ _ assms]
  have d: "days = days_before_year (Suc year)" and lo: "days_before_year year \<le> xTime"
    and y: "year < 137"
    by (simp_all add: days_before_year_def)
  from d have "days = days_before_year year + (if time_is_leap (1970 + year) then 366 else 365)"
    by (simp add: days_before_year_Suc year_days_def)
  with lo y assms(1) show ?thesis by (simp split: if_splits)
qed

lemma month_days_le: "m < 12 \<Longrightarrow> month_days year m \<le> 31"
proof -
  assume "m < 12"
  then have "m < length month_length" by (simp add: month_length_def)
  moreover have "\<forall>x \<in> set month_length. x \<le> 31" by (simp add: month_length_def)
  ultimately have "month_length ! m \<le> 31" using nth_mem by blast
  then show ?thesis by (simp add: month_days_def)
qed

text \<open>What \<open>time_break\<close> returns for a 32-bit timestamp.\<close>

lemma time_break_decomp:
  assumes ts: "ts < 2 ^ 32"
  shows "\<exists>y m r. time_break ts =
             \<lparr> tm_sec = ts mod 60, tm_min = ts div 60 mod 60,
               tm_hour = ts div 60 div 60 mod 24,
               tm_wday = ((ts div 60 div 60 div 24 + 4) mod 7) + 1,
               tm_mday = r + 1, tm_mon = m + 1, tm_year = y \<rparr>
           \<and> y < 137 \<and> m < 12 \<and> r < month_days y m
           \<and> days_before_year y + days_before_month y m + r = ts div 60 div 60 div 24"
proof -
  define xd where "xd = ts div 60 div 60 div 24"
  have xd: "xd < 49711" unfolding xd_def using ts by (rule days_of_32)
  obtain y d where yd: "break_year_loop 0 0 xd = (y, d)" by (cases "break_year_loop 0 0 xd")
  from break_year_loop_spec [OF _ _ xd yd]
  have d: "d = days_before_year (Suc y)"
    and lo: "days_before_year y \<le> xd" and hi: "xd < d" and y: "y < 137"
    by (simp_all add: days_before_year_def)
  define doy where "doy = xd - (d - (if time_is_leap (1970 + y) then 366 else 365))"
  have dd: "d - (if time_is_leap (1970 + y) then 366 else 365) = days_before_year y"
    using d by (simp add: days_before_year_Suc year_days_def)
  have doy: "days_before_year y + doy = xd" and doy_lt: "doy < year_days y"
    using lo hi d unfolding doy_def dd by (simp_all add: days_before_year_Suc)
  obtain m r where mr: "break_month_loop y 0 doy = (m, r)" by (cases "break_month_loop y 0 doy")
  from break_month_loop_spec [OF _ mr]
  have m12: "m \<le> 12" and sum: "days_before_month y m + r = doy"
    and rlt: "m < 12 \<longrightarrow> r < month_days y m"
    by (simp_all add: days_before_month_def)
  have "m \<noteq> 12" using sum doy_lt by (auto simp: days_before_month_12)
  then have m: "m < 12" using m12 by simp
  have "time_break ts =
             \<lparr> tm_sec = ts mod 60, tm_min = ts div 60 mod 60,
               tm_hour = ts div 60 div 60 mod 24, tm_wday = ((xd + 4) mod 7) + 1,
               tm_mday = r + 1, tm_mon = m + 1, tm_year = y \<rparr>"
    using ts yd mr
    by (simp add: time_break_def Let_def u32_small xd_def [symmetric] doy_def [symmetric])
  moreover have "days_before_year y + days_before_month y m + r = xd"
    using doy sum by simp
  ultimately show ?thesis using y m rlt unfolding xd_def by blast
qed

text \<open>
  Every field \<open>time_break\<close> writes is in its calendar range, for every input: the fields
  fit a \<^verbatim>\<open>uint8_t\<close>.
\<close>

lemma time_break_fields:
  "tm_sec (time_break ts) < 60 \<and> tm_min (time_break ts) < 60 \<and> tm_hour (time_break ts) < 24
   \<and> 1 \<le> tm_wday (time_break ts) \<and> tm_wday (time_break ts) \<le> 7
   \<and> 1 \<le> tm_mday (time_break ts) \<and> tm_mday (time_break ts) \<le> 31
   \<and> 1 \<le> tm_mon (time_break ts) \<and> tm_mon (time_break ts) \<le> 12
   \<and> tm_year (time_break ts) < 137"
proof -
  have eq: "time_break ts = time_break (u32 ts)"
    by (simp add: time_break_def u32_idem)
  have "u32 ts < 2 ^ 32" by (simp add: u32_def)
  from time_break_decomp [OF this] obtain y m r where
    brk: "time_break (u32 ts) =
             \<lparr> tm_sec = u32 ts mod 60, tm_min = u32 ts div 60 mod 60,
               tm_hour = u32 ts div 60 div 60 mod 24,
               tm_wday = ((u32 ts div 60 div 60 div 24 + 4) mod 7) + 1,
               tm_mday = r + 1, tm_mon = m + 1, tm_year = y \<rparr>"
    and y: "y < 137" and m: "m < 12" and r: "r < month_days y m"
    by blast
  from r month_days_le [OF m, of y] have "r < 31" by simp
  with y m show ?thesis unfolding eq brk by simp
qed

lemma time_roundtrip_32:
  assumes ts: "ts < 2 ^ 32"
  shows "time_make (time_break ts) = Some ts"
proof -
  define xd where "xd = ts div 60 div 60 div 24"
  define tm where "tm = time_break ts"
  from time_break_decomp [OF ts] obtain y m r where
    brk: "tm = \<lparr> tm_sec = ts mod 60, tm_min = ts div 60 mod 60,
               tm_hour = ts div 60 div 60 mod 24, tm_wday = ((xd + 4) mod 7) + 1,
               tm_mday = r + 1, tm_mon = m + 1, tm_year = y \<rparr>"
    and m: "m < 12" and r: "r < month_days y m"
    and sum: "days_before_year y + days_before_month y m + r = xd"
    unfolding xd_def tm_def by blast
  from r month_days_le [OF m, of y] have "r < 2 ^ 32" by simp
  then have cast: "nat ((int (r + 1) - 1) mod 2 ^ 32) = r" by (rule mday_cast)
  have "make_sum tm = 365 * (y * TIME_SECS_PER_DAY) + TIME_SECS_PER_DAY * leap_years 0 y
      + TIME_SECS_PER_DAY * days_before_month y m + r * TIME_SECS_PER_DAY
      + ts div 60 div 60 mod 24 * TIME_SECS_PER_HOUR + ts div 60 mod 60 * TIME_SECS_PER_MINUTE
      + ts mod 60"
    using cast by (simp add: make_sum_def brk month_sum_def days_before_month_def)
  also have "\<dots> = TIME_SECS_PER_DAY * xd
      + ts div 60 div 60 mod 24 * TIME_SECS_PER_HOUR + ts div 60 mod 60 * TIME_SECS_PER_MINUTE
      + ts mod 60"
  proof -
    have "xd = 365 * y + leap_years 0 y + days_before_month y m + r"
      using sum by (simp add: days_before_year_leap)
    then show ?thesis by (simp add: algebra_simps)
  qed
  also have "\<dots> = ts"
    unfolding xd_def by (rule split_seconds)
  finally have "make_sum tm = ts" .
  moreover have "tm_mon tm \<le> 13" using m by (simp add: brk)
  ultimately show ?thesis using time_make_sum [of tm] ts by (simp add: u32_small tm_def)
qed

lemma sum_list_if_count:
  "(\<Sum>x\<leftarrow>xs. if P x then c else 0) = c * int (length (filter P xs))"
  for c :: int
  by (induction xs) (simp_all add: algebra_simps)

lemma spec_leap_sum:
  "(\<Sum>y\<leftarrow>[1970..<1970 + n]. if time_is_leap y then 86400 else 0) = 86400 * int (leap_years 0 n)"
proof -
  have "[1970..<1970 + n] = map (\<lambda>k. k + 1970) [0..<n]"
    by (simp add: map_add_upt add.commute)
  then have "(\<Sum>y\<leftarrow>[1970..<1970 + n]. if time_is_leap y then 86400 else 0)
      = (\<Sum>k\<leftarrow>[0..<n]. if time_is_leap (k + 1970) then (86400 :: int) else 0)"
    by (simp add: comp_def)
  then show ?thesis
    by (simp only: sum_list_if_count leap_years_def)
qed

lemma spec_month_sum:
  "(\<Sum>m\<leftarrow>[1..<mon].
          if m = 2 \<and> time_is_leap (1970 + year) then 29 * 86400
          else int (month_length ! (m - 1)) * 86400) = 86400 * int (month_sum year 0 (mon - 1))"
proof (induction mon)
  case 0
  then show ?case by (simp add: month_sum_def)
next
  case (Suc mon)
  show ?case
  proof (cases "mon = 0")
    case True
    then show ?thesis by (simp add: month_sum_def)
  next
    case False
    then have "[1..<Suc mon] = [1..<mon] @ [mon]" and "[0..<mon] = [0..<mon - 1] @ [mon - 1]"
      by (simp_all add: upt_Suc_append [symmetric] del: upt_Suc)
    moreover have "(if mon = 2 \<and> time_is_leap (1970 + year) then 29 * 86400
          else int (month_length ! (mon - 1)) * 86400) = 86400 * int (month_days year (mon - 1))"
      using False by (auto simp: month_days_def month_length_def)
    ultimately show ?thesis using Suc.IH by (simp add: month_sum_def algebra_simps)
  qed
qed

lemma make_spec_sum: "int (u32 (make_sum tm)) = make_spec tm mod 2 ^ 32"
proof -
  define B where "B = tm_year tm * (TIME_SECS_PER_DAY * 365)
     + TIME_SECS_PER_DAY * leap_years 0 (tm_year tm)
     + TIME_SECS_PER_DAY * month_sum (tm_year tm) 0 (tm_mon tm - 1)
     + tm_hour tm * TIME_SECS_PER_HOUR + tm_min tm * TIME_SECS_PER_MINUTE + tm_sec tm"
  define d where "d = int (tm_mday tm) - 1"
  have ms: "make_sum tm = B + nat (d mod 2 ^ 32) * TIME_SECS_PER_DAY"
    by (simp add: make_sum_def B_def d_def)
  have sp: "make_spec tm = int B + d * 86400"
    unfolding make_spec_def spec_leap_sum spec_month_sum
    by (simp add: B_def d_def TIME_SECS_PER_DAY_def TIME_SECS_PER_HOUR_def TIME_SECS_PER_MINUTE_def)
  have "int (u32 (make_sum tm)) = (int B + (d mod 2 ^ 32) * 86400) mod 2 ^ 32"
    by (simp add: ms u32_def zmod_int TIME_SECS_PER_DAY_def)
  also have "\<dots> = (int B + d * 86400) mod 2 ^ 32"
    by (metis mod_add_right_eq mod_mult_left_eq)
  finally show ?thesis using sp by simp
qed

lemma time_make_spec: "tm_mon tm \<le> 13 \<Longrightarrow> time_make tm = Some (nat (make_spec tm mod 2 ^ 32))"
  using time_make_sum [of tm] make_spec_sum [of tm] by (metis nat_int)

lemma time_break_u32: "time_break ts = time_break (ts mod 2 ^ 32)"
  by (simp add: time_break_def u32_def)

text \<open>
  Claim C1 (round trip): for every timestamp \<open>ts\<close> with \<open>0 \<le> ts < 4102444800\<close>,
  \<open>time_make\<close> applied to the result of \<open>time_break ts\<close> returns \<open>ts\<close> again (and
  reads \<open>month_length\<close> within its bounds).
\<close>

theorem time_roundtrip:
  "ts < 4102444800 \<Longrightarrow> time_make (time_break ts) = Some ts"
  by (rule time_roundtrip_32) simp

theorem time_roundtrip_witness:
  "(1614556800 :: nat) < 4102444800 \<and> time_make (time_break 1614556800) = Some 1614556800"
  using time_roundtrip [of 1614556800] by simp



subsection \<open>Concrete dates\<close>

text \<open>Evaluation of the calendar routines on literal values.\<close>

lemmas calendar_eval =
  time_break_def time_make_def u32_def time_is_leap_def month_length_def Let_def
  TIME_SECS_PER_DAY_def TIME_SECS_PER_HOUR_def TIME_SECS_PER_MINUTE_def
  break_year_loop.simps break_month_loop.simps make_leap_loop.simps make_month_loop.simps

lemma time_break_68256000:
  "time_break 68256000 =
     \<lparr> tm_sec = 0, tm_min = 0, tm_hour = 0, tm_wday = 4, tm_mday = 1, tm_mon = 3, tm_year = 2 \<rparr>"
  by (simp add: calendar_eval)

lemma time_break_68169600:
  "time_break 68169600 =
     \<lparr> tm_sec = 0, tm_min = 0, tm_hour = 0, tm_wday = 3, tm_mday = 29, tm_mon = 2, tm_year = 2 \<rparr>"
  by (simp add: calendar_eval)

lemma time_make_1972_03_01:
  "time_make \<lparr> tm_sec = 0, tm_min = 0, tm_hour = 0, tm_wday = 4, tm_mday = 1, tm_mon = 3,
               tm_year = 2 \<rparr> = Some 68256000"
  by (simp add: calendar_eval)

lemma time_make_1972_02_29:
  "time_make \<lparr> tm_sec = 0, tm_min = 0, tm_hour = 0, tm_wday = 3, tm_mday = 29, tm_mon = 2,
               tm_year = 2 \<rparr> = Some 68169600"
  by (simp add: calendar_eval)

text \<open>
  Claim C8, as stated: \<open>time_break 68256000\<close> has day of month 29, month 2 and year
  offset 2. It does not: 68256000 is day 790 since the epoch, which is 1972-03-01.
\<close>

theorem leap_day_1972_counterexample:
  "\<not> (tm_mday (time_break 68256000) = 29 \<and> tm_mon (time_break 68256000) = 2
      \<and> tm_year (time_break 68256000) = 2)"
  by (simp add: time_break_68256000)

text \<open>
  Claim C8, amended: \<open>time_break 68256000\<close> is 1972-03-01 (day 1, month 3, year offset 2,
  a Wednesday), and \<open>time_make\<close> takes it back to 68256000. The leap day
  1972-02-29 is the timestamp 68169600: \<open>time_break\<close> gives day 29, month 2, year
  offset 2 for it, and \<open>time_make\<close> takes that back to 68169600.
\<close>

theorem leap_day_1972:
  "time_break 68256000 =
     \<lparr> tm_sec = 0, tm_min = 0, tm_hour = 0, tm_wday = 4, tm_mday = 1, tm_mon = 3, tm_year = 2 \<rparr>
   \<and> time_make (time_break 68256000) = Some 68256000
   \<and> time_break 68169600 =
     \<lparr> tm_sec = 0, tm_min = 0, tm_hour = 0, tm_wday = 3, tm_mday = 29, tm_mon = 2, tm_year = 2 \<rparr>
   \<and> time_make (time_break 68169600) = Some 68169600"
  by (simp only: time_break_68256000 time_break_68169600 time_make_1972_03_01
      time_make_1972_02_29 simp_thms)

subsection \<open>Arithmetic modulo \<open>2 ^ 32\<close>\<close>

text \<open>
  Claim C10: both conversions work modulo \<open>2 ^ 32\<close>. \<open>time_break\<close> of a timestamp is
  \<open>time_break\<close> of its remainder modulo \<open>2 ^ 32\<close>; and \<open>time_make\<close>, whenever the
  month is at most 13 (so that the table is read within its bounds), returns the sum that
  section 4.1 describes reduced modulo \<open>2 ^ 32\<close>; whatever \<open>time_make\<close> returns is
  below \<open>2 ^ 32\<close>.
\<close>

theorem calendar_mod_2_32:
  "time_break ts = time_break (ts mod 2 ^ 32)
   \<and> (tm_mon tm \<le> 13 \<longrightarrow> time_make tm = Some (nat (make_spec tm mod 2 ^ 32)))
   \<and> (\<forall>r. time_make tm = Some r \<longrightarrow> r < 2 ^ 32)"
proof -
  have "r < 2 ^ 32" if "time_make tm = Some r" for r
  proof -
    have "\<And>a. u32 a < 2 ^ 32" by (simp add: u32_def)
    with that show ?thesis
      by (auto simp: time_make_def Let_def split: option.splits)
  qed
  then show ?thesis
    using time_break_u32 [of ts] time_make_spec [of tm] by blast
qed

text \<open>
  The witness is 2106-02-08 06:28:16, one day after the 32-bit counter wraps: the
  unbounded sum is \<open>2 ^ 32 + 86400\<close> and \<open>time_make\<close> returns 86400.
\<close>

theorem calendar_mod_2_32_witness:
  "time_break 4294967296 = time_break 0
   \<and> tm_mon \<lparr> tm_sec = 16, tm_min = 28, tm_hour = 6, tm_wday = 2, tm_mday = 8, tm_mon = 2,
              tm_year = 136 \<rparr> \<le> 13
   \<and> make_spec \<lparr> tm_sec = 16, tm_min = 28, tm_hour = 6, tm_wday = 2, tm_mday = 8, tm_mon = 2,
              tm_year = 136 \<rparr> = 2 ^ 32 + 86400
   \<and> time_make \<lparr> tm_sec = 16, tm_min = 28, tm_hour = 6, tm_wday = 2, tm_mday = 8, tm_mon = 2,
              tm_year = 136 \<rparr> = Some 86400
   \<and> (86400 :: nat) < 2 ^ 32"
proof -
  have spec: "make_spec \<lparr> tm_sec = 16, tm_min = 28, tm_hour = 6, tm_wday = 2, tm_mday = 8,
      tm_mon = 2, tm_year = 136 \<rparr> = 4295053696"
    by (simp add: make_spec_def time_is_leap_def month_length_def upt_conv_Cons)
  show ?thesis
    using calendar_mod_2_32 [of 4294967296 "\<lparr> tm_sec = 16, tm_min = 28, tm_hour = 6,
      tm_wday = 2, tm_mday = 8, tm_mon = 2, tm_year = 136 \<rparr>"]
    by (simp add: spec)
qed

section \<open>The clock: proofs\<close>

subsection \<open>The tick loop\<close>

lemma time_get_ticks_stop:
  "\<not> TICK_SECOND \<le> tick - last_update s \<Longrightarrow> time_get_ticks TICK_SECOND tick s = Some s"
  by (subst time_get_ticks.simps) simp

lemma time_get_ticks_step:
  "TICK_SECOND \<le> tick - last_update s \<Longrightarrow>
   time_get_ticks TICK_SECOND tick s =
   time_get_ticks TICK_SECOND tick
     (s\<lparr> sys_time := sys_time s + 1, last_update := last_update s + TICK_SECOND \<rparr>)"
  by (subst time_get_ticks.simps) simp



lemma time_get_ticks_closed:
  fixes s :: "('t::len word, 'k::len word) clock"
  assumes "TICK_SECOND \<noteq> 0"
  shows "unat (tick - last_update s) div unat TICK_SECOND = n \<Longrightarrow>
         time_get_ticks TICK_SECOND tick s = Some (ticks_result TICK_SECOND n s)"
proof (induction n arbitrary: s)
  case 0
  have T: "0 < unat TICK_SECOND" using assms by (simp add: unat_gt_0)
  from 0 T have "unat (tick - last_update s) < unat TICK_SECOND"
    by (simp add: div_eq_0_iff)
  then have "\<not> TICK_SECOND \<le> tick - last_update s"
    by (simp add: word_le_nat_alt)
  then show ?case by (simp add: time_get_ticks_stop ticks_result_def)
next
  case (Suc n)
  have T: "0 < unat TICK_SECOND" using assms by (simp add: unat_gt_0)
  have ge: "unat TICK_SECOND \<le> unat (tick - last_update s)"
  proof (rule ccontr)
    assume "\<not> ?thesis"
    then have "unat (tick - last_update s) div unat TICK_SECOND = 0" by simp
    with Suc.prems show False by simp
  qed
  then have le: "TICK_SECOND \<le> tick - last_update s" by (simp add: word_le_nat_alt)
  define s' where "s' = s\<lparr> sys_time := sys_time s + 1, last_update := last_update s + TICK_SECOND \<rparr>"
  have eq: "tick - last_update s' = (tick - last_update s) - TICK_SECOND"
    by (simp add: s'_def)
  have "unat (tick - last_update s') = unat (tick - last_update s) - unat TICK_SECOND"
    unfolding eq using le by (rule unat_sub)
  then have "unat (tick - last_update s') div unat TICK_SECOND = n"
    using Suc.prems le_div_geq [OF T ge] by simp
  from Suc.IH [OF this]
  have "time_get_ticks TICK_SECOND tick s' = Some (ticks_result TICK_SECOND n s')" .
  moreover have "ticks_result TICK_SECOND n s' = ticks_result TICK_SECOND (Suc n) s"
    by (simp add: ticks_result_def s'_def algebra_simps)
  ultimately show ?case
    using time_get_ticks_step [OF le] by (simp add: s'_def)
qed


lemma time_get_ticks_frame:
  "time_get_ticks TICK_SECOND tick s = Some s' \<Longrightarrow>
   enTimeCurrentStatus s' = enTimeCurrentStatus s
   \<and> time_provider_callback s' = time_provider_callback s
   \<and> sync_interval s' = sync_interval s \<and> sync_next s' = sync_next s"
proof (induction rule: time_get_ticks.raw_induct [rotated 1, consumes 1, case_names step])
  case (step loop TICK_SECOND tick s s')
  show ?case
  proof (cases "TICK_SECOND \<le> tick - last_update s")
    case True
    with step(2) have "loop TICK_SECOND tick
        (s\<lparr> sys_time := sys_time s + 1, last_update := last_update s + TICK_SECOND \<rparr>) = Some s'"
      by simp
    from step(1) [OF this] show ?thesis by simp
  next
    case False
    with step(2) show ?thesis by simp
  qed
qed

lemma time_get_ticks_residual:
  fixes s :: "('t::len word, 'k::len word) clock"
  assumes "TICK_SECOND \<noteq> 0"
  shows "unat (tick - last_update (ticks_result TICK_SECOND
            (unat (tick - last_update s) div unat TICK_SECOND) s))
         = unat (tick - last_update s) mod unat TICK_SECOND"
proof -
  define d where "d = tick - last_update s"
  define n where "n = unat d div unat TICK_SECOND"
  have le: "n * unat TICK_SECOND \<le> unat d" by (simp add: n_def)
  have "unat d < 2 ^ LENGTH('k)" by simp
  with le have lt: "n * unat TICK_SECOND < 2 ^ LENGTH('k)" by linarith
  have "of_nat n * TICK_SECOND = (of_nat (n * unat TICK_SECOND) :: 'k word)" by simp
  then have u: "unat (of_nat n * TICK_SECOND) = n * unat TICK_SECOND"
    using lt by (simp add: unat_of_nat del: of_nat_mult)
  then have "of_nat n * TICK_SECOND \<le> d" using le by (simp add: word_le_nat_alt)
  then have "unat (d - of_nat n * TICK_SECOND) = unat d - n * unat TICK_SECOND"
    using u by (simp add: unat_sub)
  also have "\<dots> = unat d mod unat TICK_SECOND"
    by (simp add: n_def minus_div_mult_eq_mod)
  finally show ?thesis
    by (simp add: ticks_result_def d_def n_def diff_diff_eq)
qed


lemma time_get_Some:
  fixes s :: "('t::len word, 'k::len word) clock"
  assumes "TICK_SECOND \<noteq> 0"
    and "s1 = time_get_sync tick cb_now s"
    and "n = unat (tick - last_update s1) div unat TICK_SECOND"
  shows "time_get TICK_SECOND tick cb_now s
           = Some (ticks_result TICK_SECOND n s1, sys_time s1 + of_nat n)"
  using time_get_ticks_closed [OF assms(1), of tick s1 n] assms(2,3)
  by (simp add: time_get_def ticks_result_def)

lemma time_get_sync_no_set:
  "(sync_next s \<le> sys_time s \<and> time_provider_callback s \<noteq> 0 \<longrightarrow> cb_now = 0) \<Longrightarrow>
   sys_time (time_get_sync tick cb_now s) = sys_time s
   \<and> last_update (time_get_sync tick cb_now s) = last_update s"
  by (simp add: time_get_sync_def Let_def)

lemma unat_mult_of_nat:
  fixes T :: "'k::len word"
  assumes "N * unat T < 2 ^ LENGTH('k)"
  shows "unat (of_nat N * T) = N * unat T"
proof -
  have "of_nat N * T = (of_nat (N * unat T) :: 'k word)" by simp
  then show ?thesis using assms by (simp add: unat_of_nat del: of_nat_mult)
qed

lemma word_le_add_of_nat:
  fixes x :: "'t::len word"
  assumes "unat x + n < 2 ^ LENGTH('t)"
  shows "x \<le> x + of_nat n"
proof -
  have "n < 2 ^ LENGTH('t)" using assms by simp
  then have "unat (of_nat n :: 't word) = n" by (simp add: unat_of_nat)
  then have "unat (x + of_nat n) = unat x + n"
    using assms by (simp add: unat_add_lem [THEN iffD1])
  then show ?thesis by (simp add: word_le_nat_alt)
qed

lemma time_get_eval:
  fixes s :: "('t::len word, 'k::len word) clock"
  assumes "TICK_SECOND \<noteq> 0"
  shows "time_get TICK_SECOND tick cb_now s =
           (let s1 = time_get_sync tick cb_now s;
                n = unat (tick - last_update s1) div unat TICK_SECOND
            in Some (ticks_result TICK_SECOND n s1, sys_time s1 + of_nat n))"
  using time_get_Some [OF assms refl refl] by (simp add: Let_def)

lemmas clock_eval =
  time_get_eval time_get_sync_def time_set_def ticks_result_def time_init_def Let_def


subsection \<open>The sync check\<close>

text \<open>
  Claim C9: for every state and every interval, \<open>time_set_provider\<close> with a null
  callback returns with the state unchanged (callback, interval, next sync, counter, tick
  mark and status), whatever the tick counter and \<open>TICK_SECOND\<close> are: no \<open>time_get\<close>
  is run.
\<close>

theorem null_provider_ignored:
  "time_set_provider TICK_SECOND tick cb_now 0 timespan s = Some s"
  by (simp add: time_set_provider_def)

text \<open>
  Claim C5: right after a sync attempt (a sync is due and a provider is registered),
  whether the provider returned a time or 0, \<open>sync_next - sys_time = sync_interval\<close>,
  in the arithmetic of \<^verbatim>\<open>time_t\<close>.
\<close>

theorem sync_rearms:
  fixes s :: "('t::len word, 'k::len word) clock"
  assumes "sync_next s \<le> sys_time s" and "time_provider_callback s \<noteq> 0"
  shows "sync_next (time_get_sync tick cb_now s) - sys_time (time_get_sync tick cb_now s)
           = sync_interval (time_get_sync tick cb_now s)"
  using assms by (simp add: time_get_sync_def time_set_def Let_def)

text \<open>The provider answers 1700000000 at a due sync: the clock is set and re-armed.\<close>

theorem sync_rearms_witness:
  "sync_next \<lparr> sys_time = 1100 :: 32 word, sync_interval = 100, sync_next = 1100,
       last_update = 5000 :: 32 word, enTimeCurrentStatus = E_TIME_OK,
       time_provider_callback = 7 \<rparr>
     \<le> sys_time \<lparr> sys_time = 1100 :: 32 word, sync_interval = 100, sync_next = 1100,
       last_update = 5000 :: 32 word, enTimeCurrentStatus = E_TIME_OK,
       time_provider_callback = 7 \<rparr>
   \<and> time_provider_callback \<lparr> sys_time = 1100 :: 32 word, sync_interval = 100,
       sync_next = 1100, last_update = 5000 :: 32 word, enTimeCurrentStatus = E_TIME_OK,
       time_provider_callback = 7 \<rparr> \<noteq> 0
   \<and> time_get_sync 7500 1700000000 \<lparr> sys_time = 1100 :: 32 word, sync_interval = 100,
       sync_next = 1100, last_update = 5000 :: 32 word, enTimeCurrentStatus = E_TIME_OK,
       time_provider_callback = 7 \<rparr>
     = \<lparr> sys_time = 1700000000, sync_interval = 100, sync_next = 1700000100,
         last_update = 7500, enTimeCurrentStatus = E_TIME_OK, time_provider_callback = 7 \<rparr>
   \<and> (1700000100 :: 32 word) - 1700000000 = 100"
  using sync_rearms [of "\<lparr> sys_time = 1100 :: 32 word, sync_interval = 100,
       sync_next = 1100, last_update = 5000 :: 32 word, enTimeCurrentStatus = E_TIME_OK,
       time_provider_callback = 7 \<rparr>" 7500 1700000000]
  by (simp add: time_get_sync_def time_set_def)

text \<open>
  Claim C4: when a sync is due, a provider is registered and it returns 0, the status stays
  \<open>NOT_SET\<close> or \<open>NEEDS_SYNC\<close> if it was so and becomes \<open>NEEDS_SYNC\<close> if it was
  \<open>OK\<close>; the sync check changes neither the seconds counter nor the tick mark, and
  \<open>time_get\<close> returns the counter advanced by the whole seconds of the elapsed ticks.
\<close>

theorem provider_zero_keeps_clock:
  fixes s :: "('t::len word, 'k::len word) clock"
  assumes "sync_next s \<le> sys_time s" and "time_provider_callback s \<noteq> 0"
  shows "enTimeCurrentStatus (time_get_sync tick 0 s)
           = (case enTimeCurrentStatus s of
                E_TIME_NOT_SET \<Rightarrow> E_TIME_NOT_SET
              | E_TIME_NEEDS_SYNC \<Rightarrow> E_TIME_NEEDS_SYNC
              | E_TIME_OK \<Rightarrow> E_TIME_NEEDS_SYNC)
         \<and> sys_time (time_get_sync tick 0 s) = sys_time s
         \<and> last_update (time_get_sync tick 0 s) = last_update s
         \<and> (TICK_SECOND \<noteq> 0 \<longrightarrow>
              map_option snd (time_get TICK_SECOND tick 0 s)
                = Some (sys_time s + of_nat (unat (tick - last_update s) div unat TICK_SECOND)))"
proof -
  have a: "enTimeCurrentStatus (time_get_sync tick 0 s)
           = (case enTimeCurrentStatus s of
                E_TIME_NOT_SET \<Rightarrow> E_TIME_NOT_SET
              | E_TIME_NEEDS_SYNC \<Rightarrow> E_TIME_NEEDS_SYNC
              | E_TIME_OK \<Rightarrow> E_TIME_NEEDS_SYNC)"
    using assms by (cases "enTimeCurrentStatus s") (simp_all add: time_get_sync_def)
  have b: "sys_time (time_get_sync tick 0 s) = sys_time s"
    and c: "last_update (time_get_sync tick 0 s) = last_update s"
    by (simp_all add: time_get_sync_no_set)
  have "map_option snd (time_get TICK_SECOND tick 0 s)
          = Some (sys_time s + of_nat (unat (tick - last_update s) div unat TICK_SECOND))"
    if "TICK_SECOND \<noteq> 0"
    using time_get_Some [OF that refl refl, of tick 0 s] b c by simp
  with a b c show ?thesis by simp
qed

text \<open>
  The scenario of the specification: the counter has reached 1100 with a sync due at 1100
  and an interval of 100; the provider returns 0.
\<close>

theorem provider_zero_keeps_clock_witness:
  "sync_next \<lparr> sys_time = 1100 :: 32 word, sync_interval = 100, sync_next = 1100,
       last_update = 5000 :: 32 word, enTimeCurrentStatus = E_TIME_OK,
       time_provider_callback = 7 \<rparr>
     \<le> sys_time \<lparr> sys_time = 1100 :: 32 word, sync_interval = 100, sync_next = 1100,
       last_update = 5000 :: 32 word, enTimeCurrentStatus = E_TIME_OK,
       time_provider_callback = 7 \<rparr>
   \<and> time_provider_callback \<lparr> sys_time = 1100 :: 32 word, sync_interval = 100,
       sync_next = 1100, last_update = 5000 :: 32 word, enTimeCurrentStatus = E_TIME_OK,
       time_provider_callback = 7 \<rparr> \<noteq> 0
   \<and> (1000 :: 32 word) \<noteq> 0
   \<and> time_get_sync 7500 0 \<lparr> sys_time = 1100 :: 32 word, sync_interval = 100,
       sync_next = 1100, last_update = 5000 :: 32 word, enTimeCurrentStatus = E_TIME_OK,
       time_provider_callback = 7 \<rparr>
     = \<lparr> sys_time = 1100, sync_interval = 100, sync_next = 1200, last_update = 5000,
         enTimeCurrentStatus = E_TIME_NEEDS_SYNC, time_provider_callback = 7 \<rparr>
   \<and> map_option snd (time_get 1000 7500 0 \<lparr> sys_time = 1100 :: 32 word, sync_interval = 100,
       sync_next = 1100, last_update = 5000 :: 32 word, enTimeCurrentStatus = E_TIME_OK,
       time_provider_callback = 7 \<rparr>) = Some 1102"
  using provider_zero_keeps_clock [of "\<lparr> sys_time = 1100 :: 32 word, sync_interval = 100,
       sync_next = 1100, last_update = 5000 :: 32 word, enTimeCurrentStatus = E_TIME_OK,
       time_provider_callback = 7 \<rparr>" 7500 1000]
  by (simp add: time_get_sync_def)

subsection \<open>The tick accumulator\<close>

text \<open>
  Claim C7: the elapsed ticks are the modular difference \<open>tick - last_update\<close>. If
  \<open>elapsed\<close> ticks, fewer than one full wrap \<open>2 ^ LENGTH('k)\<close>, have passed since the
  tick mark, then, whether or not the counter wrapped through 0 on the way, the difference
  is \<open>elapsed\<close> and the loop adds \<open>elapsed div TICK_SECOND\<close> seconds, moving the tick
  mark by as many whole seconds.
\<close>

theorem tick_wrap_transparent:
  fixes s :: "('t::len word, 'k::len word) clock"
  assumes "TICK_SECOND \<noteq> 0" and "elapsed < 2 ^ LENGTH('k)"
    and "tick = last_update s + of_nat elapsed"
  shows "unat (tick - last_update s) = elapsed
         \<and> time_get_ticks TICK_SECOND tick s
             = Some (s\<lparr> sys_time := sys_time s + of_nat (elapsed div unat TICK_SECOND),
                       last_update := last_update s
                         + of_nat (elapsed div unat TICK_SECOND) * TICK_SECOND \<rparr>)"
proof -
  have e: "unat (tick - last_update s) = elapsed"
    using assms(2,3) by (simp add: unat_of_nat)
  with time_get_ticks_closed [OF assms(1), of tick s "elapsed div unat TICK_SECOND"]
  show ?thesis by (simp add: ticks_result_def)
qed

text \<open>
  A 32-bit tick counter that wrapped: the mark is 500 ticks before the wrap, 2500 ticks
  have passed, the counter reads 2000.
\<close>

theorem tick_wrap_transparent_witness:
  "(1000 :: 32 word) \<noteq> 0 \<and> (2500 :: nat) < 2 ^ LENGTH(32)
   \<and> (2000 :: 32 word) = 4294966796 + of_nat 2500
   \<and> unat ((2000 :: 32 word) - 4294966796) = 2500
   \<and> time_get_ticks 1000 2000 \<lparr> sys_time = 100 :: 32 word, sync_interval = 86400,
       sync_next = 86500, last_update = 4294966796 :: 32 word,
       enTimeCurrentStatus = E_TIME_OK, time_provider_callback = 0 \<rparr>
     = Some \<lparr> sys_time = 102, sync_interval = 86400, sync_next = 86500, last_update = 1500,
         enTimeCurrentStatus = E_TIME_OK, time_provider_callback = 0 \<rparr>"
  using tick_wrap_transparent [of 1000 2500 2000 "\<lparr> sys_time = 100 :: 32 word,
       sync_interval = 86400, sync_next = 86500, last_update = 4294966796 :: 32 word,
       enTimeCurrentStatus = E_TIME_OK, time_provider_callback = 0 \<rparr>"]
  by simp

text \<open>
  Claim C3, as stated: between two consecutive \<open>time_get\<close> calls the tick counter
  advances by exactly \<open>N * TICK_SECOND\<close> and no sync happens; the value returned advances
  by \<open>N\<close>. With a 32-bit tick counter, \<open>TICK_SECOND = 1000\<close> and a residue of 999
  ticks at the first call, an advance of \<open>4294967 * 1000\<close> ticks (less than
  \<open>2 ^ 32\<close>) makes the difference to the tick mark wrap to 703: the second call returns
  the same value as the first.
\<close>

theorem drift_free_counterexample:
  "time_get (1000 :: 32 word) 999 0 (time_init :: (32 word, 32 word) clock) = Some (time_init, 0)
   \<and> time_provider_callback (time_init :: (32 word, 32 word) clock) = 0
   \<and> time_get (1000 :: 32 word) (999 + 4294967 * 1000) 0
        (time_init :: (32 word, 32 word) clock) = Some (time_init, 0)
   \<and> (0 :: 32 word) \<noteq> 0 + 4294967"
  by (simp add: clock_eval)

text \<open>
  Claim C3, amended: if moreover the ticks since the tick mark, that is the residue left
  by the first call plus \<open>N * TICK_SECOND\<close>, are fewer than one full wrap of the tick
  counter, then the second call returns the first call's value plus \<open>N\<close> (in the
  arithmetic of \<^verbatim>\<open>time_t\<close>) and leaves the same residue of ticks.
\<close>

theorem drift_free:
  fixes s0 :: "('t::len word, 'k::len word) clock"
  assumes T: "TICK_SECOND \<noteq> 0"
    and first: "time_get TICK_SECOND t1 cb1 s0 = Some (s1, r1)"
    and nosync: "sync_next s1 \<le> sys_time s1 \<and> time_provider_callback s1 \<noteq> 0 \<longrightarrow> cb2 = 0"
    and adv: "t2 = t1 + of_nat N * TICK_SECOND"
    and nowrap: "unat (t1 - last_update s1) + N * unat TICK_SECOND < 2 ^ LENGTH('k)"
  shows "\<exists>s2. time_get TICK_SECOND t2 cb2 s1 = Some (s2, r1 + of_nat N)
              \<and> t2 - last_update s2 = t1 - last_update s1"
proof -
  define sa where "sa = time_get_sync t1 cb1 s0"
  define n1 where "n1 = unat (t1 - last_update sa) div unat TICK_SECOND"
  have "Some (s1, r1) = Some (ticks_result TICK_SECOND n1 sa, sys_time sa + of_nat n1)"
    using first time_get_Some [OF T sa_def n1_def] by simp
  then have s1: "s1 = ticks_result TICK_SECOND n1 sa" and "r1 = sys_time sa + of_nat n1"
    by simp_all
  then have r1: "r1 = sys_time s1" by (simp add: ticks_result_def)
  have Tpos: "0 < unat TICK_SECOND" using T by (simp add: unat_gt_0)
  have res: "unat (t1 - last_update s1) < unat TICK_SECOND"
    unfolding s1 n1_def using time_get_ticks_residual [OF T, of t1 sa] Tpos by simp
  define sb where "sb = time_get_sync t2 cb2 s1"
  have sb: "sys_time sb = sys_time s1" "last_update sb = last_update s1"
    using time_get_sync_no_set [OF nosync, of t2] by (simp_all add: sb_def)
  have NT: "unat (of_nat N * TICK_SECOND) = N * unat TICK_SECOND"
    using nowrap by (intro unat_mult_of_nat) simp
  have "t2 - last_update sb = (t1 - last_update s1) + of_nat N * TICK_SECOND"
    by (simp add: adv sb)
  then have "unat (t2 - last_update sb) = unat (t1 - last_update s1) + N * unat TICK_SECOND"
    using nowrap NT by (simp add: unat_add_lem [THEN iffD1])
  then have n2: "unat (t2 - last_update sb) div unat TICK_SECOND = N"
    using res Tpos by simp
  have "time_get TICK_SECOND t2 cb2 s1
          = Some (ticks_result TICK_SECOND N sb, sys_time sb + of_nat N)"
    using time_get_Some [OF T sb_def refl] n2 by simp
  moreover have "t2 - last_update (ticks_result TICK_SECOND N sb) = t1 - last_update s1"
    by (simp add: ticks_result_def sb adv)
  ultimately show ?thesis by (simp add: sb r1)
qed

theorem drift_free_witness:
  "(1000 :: 32 word) \<noteq> 0
   \<and> time_get (1000 :: 32 word) 999 0 (time_init :: (32 word, 32 word) clock) = Some (time_init, 0)
   \<and> time_provider_callback (time_init :: (32 word, 32 word) clock) = 0
   \<and> (3999 :: 32 word) = 999 + of_nat 3 * 1000
   \<and> unat ((999 :: 32 word) - last_update (time_init :: (32 word, 32 word) clock)) + 3 * unat (1000 :: 32 word)
        < 2 ^ LENGTH(32)
   \<and> time_get (1000 :: 32 word) 3999 0 (time_init :: (32 word, 32 word) clock)
       = Some (\<lparr> sys_time = 3, sync_interval = 86400, sync_next = 0, last_update = 3000,
                 enTimeCurrentStatus = E_TIME_NOT_SET, time_provider_callback = 0 \<rparr>, 3)"
proof -
  have first: "time_get (1000 :: 32 word) 999 0 (time_init :: (32 word, 32 word) clock)
                 = Some (time_init, 0)"
    by (simp add: clock_eval)
  have "\<exists>s2. time_get (1000 :: 32 word) 3999 0 (time_init :: (32 word, 32 word) clock)
                = Some (s2, 0 + of_nat 3) \<and> 3999 - last_update s2 = 999 - last_update (time_init :: (32 word, 32 word) clock)"
    by (rule drift_free [OF _ first]) (simp_all add: time_init_def)
  then show ?thesis using first by (simp add: clock_eval)
qed

subsection \<open>Sequences of \<open>time_get\<close> calls\<close>

lemma time_get_sync_forward:
  fixes s :: "('t::len word, 'k::len word) clock"
  assumes "sync_next s \<le> sys_time s \<and> time_provider_callback s \<noteq> 0 \<and> cb_now \<noteq> 0
             \<longrightarrow> sys_time s \<le> cb_now"
  shows "sys_time s \<le> sys_time (time_get_sync tick cb_now s)"
  using assms by (simp add: time_get_sync_def time_set_def Let_def)

text \<open>
  Claim C6, as stated: the values returned by a sequence of \<open>time_get\<close> calls with no
  \<open>time_set\<close> call between them never decrease. A provider registered with an interval
  of one second answers 1000, then 5 at the next due sync: the calls return 1001, then 5.
\<close>

theorem get_monotone_counterexample:
  "time_set_provider (1000 :: 32 word) 0 1000 7 1 (time_init :: (32 word, 32 word) clock)
     = Some \<lparr> sys_time = 1000, sync_interval = 1, sync_next = 1001, last_update = 0,
              enTimeCurrentStatus = E_TIME_OK, time_provider_callback = 7 \<rparr>
   \<and> time_get_seq (1000 :: 32 word) [(1000, 0), (1000, 5)]
        \<lparr> sys_time = 1000 :: 32 word, sync_interval = 1, sync_next = 1001,
          last_update = 0 :: 32 word, enTimeCurrentStatus = E_TIME_OK,
          time_provider_callback = 7 \<rparr> = Some [1001, 5]
   \<and> \<not> sorted [1001, 5 :: 32 word]"
  by (simp add: clock_eval time_set_provider_def)

text \<open>
  The counter also steps back, with no provider at all, when it overflows \<^verbatim>\<open>time_t\<close>
  (here 32 bits wide).
\<close>

lemma get_overflow_example:
  "time_get_seq (1000 :: 32 word) [(0, 0), (1000, 0)]
     (time_set 0 4294967295 (time_init :: (32 word, 32 word) clock)) = Some [4294967295, 0]
   \<and> \<not> sorted [4294967295, 0 :: 32 word]"
  by (simp add: clock_eval)

text \<open>
  Claim C6, amended: the values returned by a sequence of \<open>time_get\<close> calls (with no
  \<open>time_set\<close> call by the application between them) never decrease, and none is below
  the counter at the start, provided that every time a provider returns at a due sync is
  at least the counter's value then, and that the counter does not overflow
  \<^verbatim>\<open>time_t\<close> (\<open>forward_only\<close>).
\<close>

theorem get_monotone:
  fixes s :: "('t::len word, 'k::len word) clock"
  assumes "TICK_SECOND \<noteq> 0" and "forward_only TICK_SECOND envs s"
  shows "\<exists>rs. time_get_seq TICK_SECOND envs s = Some rs \<and> sorted (sys_time s # rs)"
  using assms(2)
proof (induction envs arbitrary: s)
  case Nil
  then show ?case by simp
next
  case (Cons e envs)
  obtain tick cb_now where e: "e = (tick, cb_now)" by (cases e)
  define s1 where "s1 = time_get_sync tick cb_now s"
  define n where "n = unat (tick - last_update s1) div unat TICK_SECOND"
  define s' where "s' = ticks_result TICK_SECOND n s1"
  have get: "time_get TICK_SECOND tick cb_now s = Some (s', sys_time s1 + of_nat n)"
    using time_get_Some [OF assms(1) s1_def n_def] by (simp add: s'_def)
  have fwd: "sync_next s \<le> sys_time s \<and> time_provider_callback s \<noteq> 0 \<and> cb_now \<noteq> 0
             \<longrightarrow> sys_time s \<le> cb_now"
    and nov: "unat (sys_time s1) + n < 2 ^ LENGTH('t)"
    and rest: "forward_only TICK_SECOND envs s'"
    using Cons.prems get unfolding e by (simp_all add: s1_def n_def Let_def)
  have r: "sys_time s' = sys_time s1 + of_nat n" by (simp add: s'_def ticks_result_def)
  have "sys_time s \<le> sys_time s1"
    unfolding s1_def using fwd by (rule time_get_sync_forward)
  also have "sys_time s1 \<le> sys_time s1 + of_nat n"
    using nov by (rule word_le_add_of_nat)
  finally have le: "sys_time s \<le> sys_time s'" using r by simp
  from Cons.IH [OF rest] obtain rs where
    rs: "time_get_seq TICK_SECOND envs s' = Some rs" and srt: "sorted (sys_time s' # rs)"
    by blast
  have "time_get_seq TICK_SECOND (e # envs) s = Some (sys_time s' # rs)"
    using get rs r by (simp add: e)
  moreover have "sorted (sys_time s # sys_time s' # rs)"
    using le srt by auto
  ultimately show ?case by blast
qed

theorem get_monotone_witness:
  "(1000 :: 32 word) \<noteq> 0
   \<and> forward_only (1000 :: 32 word) [(1000, 0), (1000, 1700000000), (3000, 0)]
        \<lparr> sys_time = 1000 :: 32 word, sync_interval = 1, sync_next = 1001,
          last_update = 0 :: 32 word, enTimeCurrentStatus = E_TIME_OK,
          time_provider_callback = 7 \<rparr>
   \<and> time_get_seq (1000 :: 32 word) [(1000, 0), (1000, 1700000000), (3000, 0)]
        \<lparr> sys_time = 1000 :: 32 word, sync_interval = 1, sync_next = 1001,
          last_update = 0 :: 32 word, enTimeCurrentStatus = E_TIME_OK,
          time_provider_callback = 7 \<rparr> = Some [1001, 1700000000, 1700000002]
   \<and> sorted [1000, 1001, 1700000000, 1700000002 :: 32 word]"
proof -
  have fwd: "forward_only (1000 :: 32 word) [(1000, 0), (1000, 1700000000), (3000, 0)]
        \<lparr> sys_time = 1000 :: 32 word, sync_interval = 1, sync_next = 1001,
          last_update = 0 :: 32 word, enTimeCurrentStatus = E_TIME_OK,
          time_provider_callback = 7 \<rparr>"
    by (simp add: clock_eval)
  have T: "(1000 :: 32 word) \<noteq> 0" by simp
  from get_monotone [OF T fwd] fwd show ?thesis by (simp add: clock_eval)
qed

subsection \<open>The status law\<close>

lemma status_law_snoc_set: "status_law (log @ [Ev_set now])"
  by (simp add: status_law_def)

lemma status_law_snoc_zero: "\<not> status_law (log @ [Ev_provider_zero])"
  by (simp add: status_law_def split: list.splits)

lemma time_get_sync_status_law:
  fixes s :: "('t::len word, 'k::len word) clock"
  assumes "enTimeCurrentStatus s = E_TIME_OK \<longleftrightarrow> status_law log"
  shows "enTimeCurrentStatus (time_get_sync tick cb_now s) = E_TIME_OK
           \<longleftrightarrow> status_law (log @ sync_events cb_now s)"
  using assms
  by (simp add: time_get_sync_def sync_events_def time_set_def Let_def
      status_law_snoc_set status_law_snoc_zero)

lemma time_get_status_law:
  fixes s :: "('t::len word, 'k::len word) clock"
  assumes "time_get TICK_SECOND tick cb_now s = Some (s', r)"
    and "enTimeCurrentStatus s = E_TIME_OK \<longleftrightarrow> status_law log"
  shows "enTimeCurrentStatus s' = E_TIME_OK \<longleftrightarrow> status_law (log @ sync_events cb_now s)"
proof -
  from assms(1) have "time_get_ticks TICK_SECOND tick (time_get_sync tick cb_now s) = Some s'"
    by (simp add: time_get_def split: option.splits)
  from time_get_ticks_frame [OF this]
  have "enTimeCurrentStatus s' = enTimeCurrentStatus (time_get_sync tick cb_now s)" by simp
  with time_get_sync_status_law [OF assms(2)] show ?thesis by simp
qed

lemma step_status_law:
  fixes s :: "('t::len word, 'k::len word) clock"
  assumes "step TICK_SECOND c s = Some s'"
    and "enTimeCurrentStatus s = E_TIME_OK \<longleftrightarrow> status_law log"
  shows "enTimeCurrentStatus s' = E_TIME_OK \<longleftrightarrow> status_law (log @ call_events c s)"
proof (cases c)
  case (Call_set tick now)
  with assms show ?thesis
    by (auto simp: step_def call_events_def time_set_def status_law_snoc_set)
next
  case (Call_get tick cb_now)
  with assms(1) obtain r where "time_get TICK_SECOND tick cb_now s = Some (s', r)"
    by (auto simp: step_def)
  from time_get_status_law [OF this assms(2)] Call_get show ?thesis
    by (simp add: call_events_def)
next
  case (Call_set_provider tick cb_now callback timespan)
  show ?thesis
  proof (cases "callback = 0")
    case True
    with assms Call_set_provider show ?thesis
      by (simp add: step_def call_events_def time_set_provider_def)
  next
    case False
    define s0 where "s0 = s\<lparr> time_provider_callback := callback,
        sync_interval := (if timespan = 0 then of_nat TIME_SECS_PER_DAY else timespan),
        sync_next := sys_time s \<rparr>"
    from assms(1) Call_set_provider False
    obtain r where get: "time_get TICK_SECOND tick cb_now s0 = Some (s', r)"
      by (auto simp: step_def time_set_provider_def s0_def)
    have "enTimeCurrentStatus s0 = E_TIME_OK \<longleftrightarrow> status_law log"
      using assms(2) by (simp add: s0_def)
    from time_get_status_law [OF get this] Call_set_provider False show ?thesis
      by (simp add: call_events_def s0_def)
  qed
qed

lemma run_status_law:
  fixes s :: "('t::len word, 'k::len word) clock"
  shows "run TICK_SECOND calls (s, log) = Some (s', log') \<Longrightarrow>
         (enTimeCurrentStatus s = E_TIME_OK \<longleftrightarrow> status_law log) \<Longrightarrow>
         (enTimeCurrentStatus s' = E_TIME_OK \<longleftrightarrow> status_law log')"
proof (induction calls arbitrary: s log)
  case Nil
  then show ?case by simp
next
  case (Cons c calls)
  from Cons.prems(1) obtain s1 where st: "step TICK_SECOND c s = Some s1"
    and rn: "run TICK_SECOND calls (s1, log @ call_events c s) = Some (s', log')"
    by (auto split: option.splits)
  from Cons.IH [OF rn step_status_law [OF st Cons.prems(2)]] show ?case .
qed

text \<open>
  Claim C2, as stated: in every reachable state the status is \<open>OK\<close> exactly when the
  most recent set had a nonzero argument and no provider has returned 0 at a due sync
  since. \<open>time_set\<close> does not look at its argument: after \<open>time_set 0\<close> the status is
  \<open>OK\<close>.
\<close>

theorem status_law_spec_counterexample:
  "run (1000 :: 32 word) [Call_set 0 0] (time_init :: (32 word, 32 word) clock, [])
     = Some (time_set 0 0 time_init, [Ev_set 0])
   \<and> \<not> (enTimeCurrentStatus (time_set 0 0 (time_init :: (32 word, 32 word) clock)) = E_TIME_OK
          \<longleftrightarrow> status_law_spec [Ev_set (0 :: 32 word)])"
  by (simp add: step_def call_events_def time_set_def status_law_spec_def)

text \<open>
  Claim C2, amended: in every state reached from the initial one by calls of
  \<open>time_set\<close>, \<open>time_get\<close> and \<open>time_set_provider\<close>, the status is \<open>OK\<close> exactly when
  there has been a set (by the application or by a successful sync, with any argument) and
  no provider has returned 0 at a due sync since the most recent one.
\<close>

theorem status_law_reachable:
  fixes s :: "('t::len word, 'k::len word) clock"
  assumes "run TICK_SECOND calls (time_init, []) = Some (s, log)"
  shows "enTimeCurrentStatus s = E_TIME_OK \<longleftrightarrow> status_law log"
  using assms by (rule run_status_law) (simp add: time_init_def status_law_def)

theorem status_law_reachable_witness:
  "run (1000 :: 32 word) [Call_set_provider 0 1700000000 7 0, Call_get 2500 0, Call_get 2500 0]
       (time_init :: (32 word, 32 word) clock, [])
     = Some (\<lparr> sys_time = 1700000002, sync_interval = 86400, sync_next = 1700086400,
                last_update = 2000, enTimeCurrentStatus = E_TIME_OK,
                time_provider_callback = 7 \<rparr>, [Ev_set 1700000000])
   \<and> (enTimeCurrentStatus \<lparr> sys_time = 1700000002 :: 32 word, sync_interval = 86400 :: 32 word,
                sync_next = 1700086400, last_update = 2000 :: 32 word,
                enTimeCurrentStatus = E_TIME_OK, time_provider_callback = 7 \<rparr> = E_TIME_OK
        \<longleftrightarrow> status_law [Ev_set (1700000000 :: 32 word)])"
proof -
  have r: "run (1000 :: 32 word)
       [Call_set_provider 0 1700000000 7 0, Call_get 2500 0, Call_get 2500 0]
       (time_init :: (32 word, 32 word) clock, [])
     = Some (\<lparr> sys_time = 1700000002, sync_interval = 86400, sync_next = 1700086400,
                last_update = 2000, enTimeCurrentStatus = E_TIME_OK,
                time_provider_callback = 7 \<rparr>, [Ev_set 1700000000])"
    by (simp add: step_def call_events_def sync_events_def time_set_provider_def
        TIME_SECS_PER_DAY_def clock_eval)
  from status_law_reachable [OF r] r show ?thesis by simp
qed

end
